theory Spec2Isabelle
  imports Main "HOL-Library.Word"
begin

section \<open>Data model of GameEventManager.h\<close>

text \<open>
  An \<open>FName\<close> is used by the program only as a key that is compared for equality and
  printed in log lines; it is modelled by its text. A \<open>float\<close> or \<open>double\<close> is only
  stored into a slot and read back, never computed with, so it is modelled by its
  IEEE-754 bit pattern (all bits zero is \<open>0.0\<close>). A pointer is either null or an
  address.
\<close>

type_synonym FName = string
type_synonym FString = string
type_synonym float = "32 word"
type_synonym double = "64 word"

datatype ptr = nullptr | Addr nat

datatype FVector = FVector float float float
datatype FVector2D = FVector2D float float
datatype FRotator = FRotator float float float

text \<open>\<open>enum class EEventArgTypes : uint8\<close>, the argument kinds a data table row can declare
  (\<open>E_Int\<close> is \<open>EEventArgTypes::Int\<close>, and so on).\<close>

datatype EEventArgTypes =
    E_Int | E_Float | E_Bool | E_FName | E_FString | E_FVector | E_FVector2D | E_FRotator
  | E_UObjectPtr | E_AActorPtr | E_UEnum | E_CustomStruct

text \<open>
  The alternatives of
  \<open>TVariant<int, float, double, FString, FName, bool, FVector, FVector2D, FRotator,
  UObject*, AActor*, uint8, FEventArgStruct*>\<close>, in the order of the typedef: the C++ types
  a template parameter \<open>T\<close> of \<open>Broadcast\<close>, \<open>SetValues\<close> and \<open>GetValue\<close> can be.
\<close>

datatype CppType =
    T_int | T_float | T_double | T_FString | T_FName | T_bool | T_FVector | T_FVector2D
  | T_FRotator | T_UObjectPtr | T_AActorPtr | T_uint8 | T_FEventArgStructPtr

text \<open>A value of the variant \<open>EventArgType\<close>: the active alternative with its payload.\<close>

datatype EventArgType =
    V_int "32 word"
  | V_float float
  | V_double double
  | V_FString FString
  | V_FName FName
  | V_bool bool
  | V_FVector FVector
  | V_FVector2D FVector2D
  | V_FRotator FRotator
  | V_UObjectPtr ptr
  | V_AActorPtr ptr
  | V_uint8 "8 word"
  | V_FEventArgStructPtr ptr

fun TypeOf :: "EventArgType \<Rightarrow> CppType" where
  "TypeOf (V_int _) = T_int"
| "TypeOf (V_float _) = T_float"
| "TypeOf (V_double _) = T_double"
| "TypeOf (V_FString _) = T_FString"
| "TypeOf (V_FName _) = T_FName"
| "TypeOf (V_bool _) = T_bool"
| "TypeOf (V_FVector _) = T_FVector"
| "TypeOf (V_FVector2D _) = T_FVector2D"
| "TypeOf (V_FRotator _) = T_FRotator"
| "TypeOf (V_UObjectPtr _) = T_UObjectPtr"
| "TypeOf (V_AActorPtr _) = T_AActorPtr"
| "TypeOf (V_uint8 _) = T_uint8"
| "TypeOf (V_FEventArgStructPtr _) = T_FEventArgStructPtr"

text \<open>The position of a type in the variant's type list.\<close>

fun IndexOf :: "CppType \<Rightarrow> nat" where
  "IndexOf T_int = 0"
| "IndexOf T_float = 1"
| "IndexOf T_double = 2"
| "IndexOf T_FString = 3"
| "IndexOf T_FName = 4"
| "IndexOf T_bool = 5"
| "IndexOf T_FVector = 6"
| "IndexOf T_FVector2D = 7"
| "IndexOf T_FRotator = 8"
| "IndexOf T_UObjectPtr = 9"
| "IndexOf T_AActorPtr = 10"
| "IndexOf T_uint8 = 11"
| "IndexOf T_FEventArgStructPtr = 12"

text \<open>\<open>TVariant::GetIndex()\<close>: the index of the active alternative.\<close>

definition GetIndex :: "EventArgType \<Rightarrow> nat" where
  "GetIndex v = IndexOf (TypeOf v)"

text \<open>\<open>class CEventArg\<close>: an argument slot, its name and its variant.\<close>

record CEventArg =
  m_name :: FName
  m_type :: EventArgType

text \<open>\<open>struct FEventDefinition\<close>: a data table row. \<open>m_args\<close> is a
  \<open>TMap<FName, EEventArgTypes>\<close>, held here as its pairs in iteration order.\<close>

record FEventDefinition =
  m_isDynamic :: bool
  m_args :: "(FName \<times> EEventArgTypes) list"

text \<open>
  Modelled from the spec: the engine's multicast delegates \<open>FGameEventDelegate\<close> and
  \<open>FGameEventDelegateDynamic\<close>, which are not part of the sources. Following the spec
  (\<open>registerSubscriber\<close>: "appends to subscribers; no de-duplication; order of
  registration is the order of invocation on broadcast"), a delegate is the list of the
  callbacks bound to it, in registration order. The type \<open>'cb\<close> is that of the callbacks.
\<close>

type_synonym 'cb FGameEventDelegate = "'cb list"

text \<open>
  \<open>class UGameEvent\<close> and its subclass \<open>UGameEventDynamic\<close> in one record:
  \<open>is_dynamic\<close> is the dynamic class of the object, and \<open>m_dynamicDelegate\<close> is the
  member the subclass adds.
\<close>

record 'cb UGameEvent =
  is_dynamic :: bool
  m_eventArgs :: "CEventArg list"
  m_delegate :: "'cb FGameEventDelegate"
  m_dynamicDelegate :: "'cb FGameEventDelegate"
  m_argsCounter :: int
  m_name :: FName

text \<open>The \<open>UE_LOG\<close> error lines of the program, each with the values it prints.\<close>

datatype log_msg =
    BroadcastFailed FName int nat
      \<comment> \<open>"Broadcast of Event '%s' failed. Args Counter: %d, Event Args Num: %d"\<close>
  | BroadcastMismatch FName FName
      \<comment> \<open>"Broadcast mismatch found in event '%s' between the sent argument and '%s'"\<close>
  | VariableNotFound FName FName
      \<comment> \<open>"Variable '%s' could not be found in event '%s'"\<close>
  | WrongType FName FName
      \<comment> \<open>"Requested variable '%s' in event '%s' with the wrong type!"\<close>
  | LogPointer ptr
      \<comment> \<open>the "%p" warning lines of \<open>Setup\<close>\<close>

text \<open>
  What a call does besides changing the event, in the order it happens: a callback is
  invoked with the event as it is at that moment, or a line is logged. Callbacks read the
  event they are given (through \<open>GetValue\<close>); they do not call back into \<open>Broadcast\<close>
  of the same event, which the program does not support.
\<close>

datatype 'cb effect =
    Invoke 'cb "'cb UGameEvent"
  | Log log_msg

text \<open>
  The ways a call does not return: \<open>m_eventArgs[m_argsCounter]\<close> outside the array
  (index and array length), a failed \<open>check\<close>, and a null \<open>m_eventDefinitions\<close>.
\<close>

datatype fatal =
    ArrayIndexOutOfBounds int nat
  | CheckFailed
  | NullDataTable

section \<open>UGameEvent\<close>

text \<open>Modelled from the spec: binding a callback to a delegate (\<open>AddLambda\<close>, \<open>Add\<close>)
  appends it; the engine's delegate is not part of the sources.\<close>

definition Delegate_Add :: "'cb FGameEventDelegate \<Rightarrow> 'cb \<Rightarrow> 'cb FGameEventDelegate" where
  "Delegate_Add d cb = d @ [cb]"

text \<open>Modelled from the spec: \<open>Broadcast\<close> of a delegate invokes each bound callback once,
  in registration order, with the event as its argument; the engine's delegate is not
  part of the sources.\<close>

definition Delegate_Broadcast :: "'cb FGameEventDelegate \<Rightarrow> 'cb UGameEvent \<Rightarrow> 'cb effect list" where
  "Delegate_Broadcast d ev = map (\<lambda>cb. Invoke cb ev) d"

text \<open>The callbacks that \<open>BroadcastDelegate\<close> of this event reaches: those of \<open>m_delegate\<close>
  for a \<open>UGameEvent\<close>, those of \<open>m_dynamicDelegate\<close> for a \<open>UGameEventDynamic\<close>.\<close>

definition subscribers :: "'cb UGameEvent \<Rightarrow> 'cb list" where
  "subscribers ev = (if is_dynamic ev then m_dynamicDelegate ev else m_delegate ev)"

text \<open>Modelled from the spec: \<open>registerSubscriber\<close>, which the sources offer through the
  accessors only, as \<open>GetDelegate().AddLambda(cb)\<close> on a \<open>UGameEvent\<close> and as
  \<open>GetDynDelegate().Add(cb)\<close> on a \<open>UGameEventDynamic\<close>.\<close>

definition registerSubscriber :: "'cb UGameEvent \<Rightarrow> 'cb \<Rightarrow> 'cb UGameEvent" where
  "registerSubscriber ev cb =
     (if is_dynamic ev then ev\<lparr>m_dynamicDelegate := Delegate_Add (m_dynamicDelegate ev) cb\<rparr>
      else ev\<lparr>m_delegate := Delegate_Add (m_delegate ev) cb\<rparr>)"

text \<open>\<open>UGameEvent::BroadcastDelegate\<close> and its override in \<open>UGameEventDynamic\<close>.\<close>

definition BroadcastDelegate :: "'cb UGameEvent \<Rightarrow> 'cb effect list" where
  "BroadcastDelegate ev =
     (if is_dynamic ev then Delegate_Broadcast (m_dynamicDelegate ev) ev
      else Delegate_Broadcast (m_delegate ev) ev)"

text \<open>\<open>UGameEvent::CheckArgsCounter\<close>.\<close>

definition CheckArgsCounter :: "'cb UGameEvent \<Rightarrow> 'cb UGameEvent \<times> 'cb effect list" where
  "CheckArgsCounter ev =
     (let ev' = ev\<lparr>m_argsCounter := m_argsCounter ev + 1\<rparr>
      in if m_argsCounter ev' \<ge> int (length (m_eventArgs ev'))
         then (ev', BroadcastDelegate ev')
         else (ev', []))"

text \<open>
  \<open>template <typename T> void SetValues(T arg)\<close>. The argument is given as the variant
  that \<open>tempType.Set<T>(arg)\<close> builds. \<open>m_eventArgs[m_argsCounter]\<close> has no guard in the
  source; here an index outside the array ends the call with \<open>ArrayIndexOutOfBounds\<close>.
\<close>

definition SetValues_arg ::
  "'cb UGameEvent \<Rightarrow> EventArgType \<Rightarrow> fatal + 'cb UGameEvent \<times> 'cb effect list" where
  "SetValues_arg ev arg =
     (if m_argsCounter ev = -1 then Inr (ev, [])
      else
        let tempType = arg; c = m_argsCounter ev in
        if c < 0 \<or> c \<ge> int (length (m_eventArgs ev))
        then Inl (ArrayIndexOutOfBounds c (length (m_eventArgs ev)))
        else
          let eventArg = m_eventArgs ev ! nat c in
          if GetIndex (m_type eventArg) = GetIndex tempType
          then Inr (CheckArgsCounter
                 (ev\<lparr>m_eventArgs := (m_eventArgs ev)[nat c := eventArg\<lparr>m_type := arg\<rparr>]\<rparr>))
          else Inr (ev\<lparr>m_argsCounter := -1\<rparr>,
                    [Log (BroadcastMismatch (UGameEvent.m_name ev) (CEventArg.m_name eventArg))]))"

text \<open>
  \<open>template <typename T, typename ... Args> void SetValues(T t, Args ... args)\<close>. With an
  empty pack the call resolves to the one-argument overload above.
\<close>

fun SetValues ::
  "'cb UGameEvent \<Rightarrow> EventArgType \<Rightarrow> EventArgType list
     \<Rightarrow> fatal + 'cb UGameEvent \<times> 'cb effect list" where
  "SetValues ev t [] = SetValues_arg ev t"
| "SetValues ev t (a # args) =
     (if m_argsCounter ev \<noteq> -1
      then (case SetValues_arg ev t of
              Inl e \<Rightarrow> Inl e
            | Inr (ev1, fx1) \<Rightarrow>
                (case SetValues ev1 a args of
                   Inl e \<Rightarrow> Inl e
                 | Inr (ev2, fx2) \<Rightarrow> Inr (ev2, fx1 @ fx2)))
      else Inr (ev, []))"

text \<open>\<open>template <typename T, typename ... Args> void Broadcast(T t, Args ... args)\<close>.\<close>

definition Broadcast ::
  "'cb UGameEvent \<Rightarrow> EventArgType \<Rightarrow> EventArgType list
     \<Rightarrow> fatal + 'cb UGameEvent \<times> 'cb effect list" where
  "Broadcast ev t args =
     (case SetValues ev t args of
        Inl e \<Rightarrow> Inl e
      | Inr (ev1, fx) \<Rightarrow>
          Inr (ev1\<lparr>m_argsCounter := 0\<rparr>,
               fx @ (if m_argsCounter ev1 = -1 \<or> m_argsCounter ev1 < int (length (m_eventArgs ev1))
                     then [Log (BroadcastFailed (UGameEvent.m_name ev1) (m_argsCounter ev1)
                                  (length (m_eventArgs ev1)))]
                     else [])))"

text \<open>\<open>void Broadcast()\<close>, the overload without arguments.\<close>

definition Broadcast0 :: "'cb UGameEvent \<Rightarrow> 'cb UGameEvent \<times> 'cb effect list" where
  "Broadcast0 ev = (ev, BroadcastDelegate ev)"

text \<open>A call \<open>ev.Broadcast(v\<^sub>1, ..., v\<^sub>k)\<close>: overload resolution by the number of arguments.\<close>

definition Broadcast_call ::
  "'cb UGameEvent \<Rightarrow> EventArgType list \<Rightarrow> fatal + 'cb UGameEvent \<times> 'cb effect list" where
  "Broadcast_call ev vs =
     (case vs of [] \<Rightarrow> Inr (Broadcast0 ev) | t # args \<Rightarrow> Broadcast ev t args)"

text \<open>
  \<open>template <typename T> T GetValue(const FName& id)\<close>, the parameter \<open>id\<close> written
  \<open>name\<close>. \<open>Inr v\<close> is the return of the stored value \<open>found->m_type.Get<T>()\<close>;
  \<open>Inl e\<close> is the error line \<open>e\<close> logged and the return of \<open>T()\<close>, a value built
  without reading any slot. The event is not changed.
\<close>

definition GetValue :: "'cb UGameEvent \<Rightarrow> FName \<Rightarrow> CppType \<Rightarrow> log_msg + EventArgType" where
  "GetValue ev name T =
     (case find (\<lambda>arg. CEventArg.m_name arg = name) (m_eventArgs ev) of
        None \<Rightarrow> Inl (VariableNotFound name (UGameEvent.m_name ev))
      | Some found \<Rightarrow>
          if GetIndex (m_type found) = IndexOf T
          then Inr (m_type found)
          else Inl (WrongType name (UGameEvent.m_name ev)))"

section \<open>UGameEventManager\<close>

text \<open>
  Modelled from the spec: the engine's \<open>UDataTable\<close>, which is not part of the sources,
  as the spec's "ordered sequence of definition rows (each row: name, flag, ordered list
  of (argument name, ArgumentKind))". \<open>GetRowNames\<close> gives the names in order and
  \<open>FindRow\<close> the row stored under a name, if there is one. The engine's table is keyed
  by row name, so the names of a table the program reads are distinct.
\<close>

type_synonym UDataTable = "(FName \<times> FEventDefinition) list"

definition GetRowNames :: "UDataTable \<Rightarrow> FName list" where
  "GetRowNames dt = map fst dt"

definition FindRow :: "UDataTable \<Rightarrow> FName \<Rightarrow> FEventDefinition option" where
  "FindRow dt name = map_of dt name"

text \<open>\<open>class UGameEventManager\<close>. \<open>m_eventDefinitions\<close> is a pointer that starts null;
  \<open>m_events\<close> is a \<open>TMap<FName, UGameEvent*>\<close>, each event object being reached through
  the map only.\<close>

record 'cb UGameEventManager =
  m_eventDefinitions :: "UDataTable option"
  m_events :: "FName \<rightharpoonup> 'cb UGameEvent"

text \<open>\<open>NewObject<UGameEvent>\<close> or \<open>NewObject<UGameEventDynamic>\<close>: the members as their
  in-class initialisers leave them.\<close>

definition NewObject :: "bool \<Rightarrow> 'cb UGameEvent" where
  "NewObject dyn =
     \<lparr>is_dynamic = dyn, m_eventArgs = [], m_delegate = [], m_dynamicDelegate = [],
      m_argsCounter = 0, UGameEvent.m_name = ''''\<rparr>"

text \<open>
  The chain of \<open>if (arg.Value == ...) argType.Set<...>(...)\<close> in \<open>Setup\<close>: the variant a
  slot starts with. \<open>Set<float>(0)\<close> stores \<open>0.0f\<close> and \<open>Set<bool>(0)\<close> stores \<open>false\<close>.
\<close>

fun argType :: "EEventArgTypes \<Rightarrow> EventArgType" where
  "argType E_Int = V_int 0"
| "argType E_Float = V_float 0"
| "argType E_Bool = V_bool False"
| "argType E_FName = V_FName ''''"
| "argType E_FString = V_FString ''''"
| "argType E_FVector = V_FVector (FVector.FVector 0 0 0)"
| "argType E_FVector2D = V_FVector2D (FVector2D.FVector2D 0 0)"
| "argType E_FRotator = V_FRotator (FRotator.FRotator 0 0 0)"
| "argType E_UObjectPtr = V_UObjectPtr nullptr"
| "argType E_AActorPtr = V_AActorPtr nullptr"
| "argType E_UEnum = V_uint8 0"
| "argType E_CustomStruct = V_FEventArgStructPtr nullptr"

text \<open>The inner loop of \<open>Setup\<close>, \<open>for (auto& arg : row->m_args)\<close>.\<close>

fun Setup_args :: "'cb UGameEvent \<Rightarrow> (FName \<times> EEventArgTypes) list \<Rightarrow> 'cb UGameEvent" where
  "Setup_args ev [] = ev"
| "Setup_args ev (arg # rest) =
     Setup_args
       (ev\<lparr>m_eventArgs := m_eventArgs ev @ [\<lparr>CEventArg.m_name = fst arg, m_type = argType (snd arg)\<rparr>]\<rparr>)
       rest"

text \<open>
  The outer loop of \<open>Setup\<close>, \<open>for (const FName& name : rowNames)\<close> (lines 40 to 91).
  The source adds the event to \<open>m_events\<close> before it fills \<open>m_eventArgs\<close> through the same
  pointer; the map here receives the event once it is filled.
\<close>

fun Setup_rows ::
  "'cb UGameEventManager \<Rightarrow> UDataTable \<Rightarrow> FName list \<Rightarrow> 'cb UGameEventManager" where
  "Setup_rows mgr dt [] = mgr"
| "Setup_rows mgr dt (name # rowNames) =
     (case FindRow dt name of
        None \<Rightarrow> Setup_rows mgr dt rowNames
      | Some row \<Rightarrow>
          let ev = NewObject (m_isDynamic row);
              ev = ev\<lparr>UGameEvent.m_name := name\<rparr>;
              ev = Setup_args ev (m_args row)
          in Setup_rows (mgr\<lparr>m_events := (m_events mgr)(name \<mapsto> ev)\<rparr>) dt rowNames)"

text \<open>\<open>UGameEventManager::Clear\<close>.\<close>

definition Clear :: "'cb UGameEventManager \<Rightarrow> 'cb UGameEventManager" where
  "Clear mgr = mgr\<lparr>m_events := Map.empty\<rparr>"

text \<open>\<open>UGameEventManager::GetDynamic\<close>: the returned pointer (\<open>None\<close> is \<open>nullptr\<close>) and
  the out-parameter \<open>success\<close>.\<close>

definition GetDynamic :: "'cb UGameEventManager \<Rightarrow> FName \<Rightarrow> 'cb UGameEvent option \<times> bool" where
  "GetDynamic mgr name =
     (if name \<notin> dom (m_events mgr) then (None, False)
      else (m_events mgr name, True))"

text \<open>\<open>UGameEventManager::Get\<close>: \<open>check(ev != nullptr)\<close> stops the program on an unknown
  name.\<close>

definition Get :: "'cb UGameEventManager \<Rightarrow> FName \<Rightarrow> fatal + 'cb UGameEvent" where
  "Get mgr name =
     (case m_events mgr name of
        None \<Rightarrow> Inl CheckFailed
      | Some ev \<Rightarrow> Inr ev)"





section \<open>Notions used in the statements\<close>

text \<open>A slot accepts a value when the two variants have the same index, the test of
  \<open>SetValues\<close>.\<close>

definition kind_match :: "CEventArg \<Rightarrow> EventArgType \<Rightarrow> bool" where
  "kind_match slot v \<longleftrightarrow> GetIndex (m_type slot) = GetIndex v"

text \<open>The slots after the values \<open>vs\<close> have been stored into the first \<open>length vs\<close> of
  them, in order; the other slots are as before.\<close>

definition store_values :: "CEventArg list \<Rightarrow> EventArgType list \<Rightarrow> CEventArg list" where
  "store_values slots vs =
     map2 (\<lambda>slot v. slot\<lparr>m_type := v\<rparr>) slots vs @ drop (length vs) slots"

text \<open>The event after \<open>SetValues\<close> has stored the values \<open>vs\<close> and counted them, before
  \<open>Broadcast\<close> resets the counter: the event a callback is invoked with.\<close>

definition filled :: "'cb UGameEvent \<Rightarrow> EventArgType list \<Rightarrow> 'cb UGameEvent" where
  "filled ev vs =
     ev\<lparr>m_eventArgs := store_values (m_eventArgs ev) vs,
        m_argsCounter := m_argsCounter ev + int (length vs)\<rparr>"



text \<open>The schema of an event: the name and the variant index of each slot, in order.\<close>

definition schema :: "'cb UGameEvent \<Rightarrow> (FName \<times> nat) list" where
  "schema ev = map (\<lambda>slot. (CEventArg.m_name slot, GetIndex (m_type slot))) (m_eventArgs ev)"

text \<open>The callbacks invoked and the lines logged by a call, each in order.\<close>

fun invoked :: "'cb effect list \<Rightarrow> 'cb list" where
  "invoked [] = []"
| "invoked (Invoke cb ev # fx) = cb # invoked fx"
| "invoked (Log msg # fx) = invoked fx"

fun logged :: "'cb effect list \<Rightarrow> log_msg list" where
  "logged [] = []"
| "logged (Invoke cb ev # fx) = logged fx"
| "logged (Log msg # fx) = msg # logged fx"

text \<open>A client of one event: a sequence of \<open>Broadcast\<close> and \<open>GetValue\<close> calls, each made
  on the event as the previous call left it. It stops at the first call that does not
  return.\<close>

datatype call = Call_Broadcast "EventArgType list" | Call_GetValue FName CppType

fun run_calls :: "'cb UGameEvent \<Rightarrow> call list \<Rightarrow> fatal + 'cb UGameEvent" where
  "run_calls ev [] = Inr ev"
| "run_calls ev (Call_Broadcast vs # calls) =
     (case Broadcast_call ev vs of
        Inl e \<Rightarrow> Inl e
      | Inr (ev', fx) \<Rightarrow> run_calls ev' calls)"
| "run_calls ev (Call_GetValue name T # calls) =
     (case GetValue ev name T of
        Inl e \<Rightarrow> run_calls ev calls
      | Inr v \<Rightarrow> run_calls ev calls)"

subsection \<open>Example events and tables\<close>

text \<open>An event with the slots \<open>amount : int\<close> and \<open>critical : bool\<close> and two subscribers,
  and the event "OnLanded" of the spec's scenario with one subscriber. Callbacks are
  numbered.\<close>

definition OnDamaged :: "nat UGameEvent" where
  "OnDamaged =
     \<lparr>is_dynamic = False,
      m_eventArgs = [\<lparr>CEventArg.m_name = ''amount'', m_type = V_int 0\<rparr>,
                     \<lparr>CEventArg.m_name = ''critical'', m_type = V_bool False\<rparr>],
      m_delegate = [1, 2], m_dynamicDelegate = [], m_argsCounter = 0,
      UGameEvent.m_name = ''OnDamaged''\<rparr>"

definition OnLanded :: "nat UGameEvent" where
  "OnLanded =
     \<lparr>is_dynamic = False,
      m_eventArgs = [\<lparr>CEventArg.m_name = ''height'', m_type = V_float 0\<rparr>],
      m_delegate = [7], m_dynamicDelegate = [], m_argsCounter = 0,
      UGameEvent.m_name = ''OnLanded''\<rparr>"

text \<open>The two definitions of the spec's scenarios, and a table with the two events that
  the end of \<open>Setup\<close> uses and a third one.\<close>

definition definitions :: UDataTable where
  "definitions =
     [(''OnLanded'', \<lparr>m_isDynamic = False, m_args = [(''height'', E_Float)]\<rparr>),
      (''OnFired'', \<lparr>m_isDynamic = True, m_args = [(''source'', E_UObjectPtr)]\<rparr>)]"


definition empty_manager :: "UDataTable \<Rightarrow> nat UGameEventManager" where
  "empty_manager dt = \<lparr>m_eventDefinitions = Some dt, m_events = Map.empty\<rparr>"


section \<open>Lemmas\<close>

subsection \<open>Storing values\<close>

lemma store_values_Nil [simp]: "store_values slots [] = slots"
  by (simp add: store_values_def)

lemma store_values_Cons [simp]:
  "store_values (a # slots) (v # vs) = a\<lparr>m_type := v\<rparr> # store_values slots vs"
  by (simp add: store_values_def)

lemma store_values_names:
  "map CEventArg.m_name (store_values slots vs) = map CEventArg.m_name slots"
proof (induction slots arbitrary: vs)
  case Nil
  show ?case by (simp add: store_values_def)
next
  case (Cons a slots)
  then show ?case by (cases vs) simp_all
qed

lemma store_values_length [simp]: "length (store_values slots vs) = length slots"
  using store_values_names [of slots vs] by (metis length_map)

lemma store_values_nth:
  "i < length vs \<Longrightarrow> i < length slots \<Longrightarrow>
     store_values slots vs ! i = (slots ! i)\<lparr>m_type := vs ! i\<rparr>"
proof (induction slots arbitrary: vs i)
  case Nil
  then show ?case by simp
next
  case (Cons a slots)
  then show ?case by (cases vs; cases i) simp_all
qed

lemma store_values_drop:
  "drop (length vs) (store_values slots vs) = drop (length vs) slots"
proof (induction slots arbitrary: vs)
  case Nil
  show ?case by (simp add: store_values_def)
next
  case (Cons a slots)
  then show ?case by (cases vs) simp_all
qed

lemma store_values_kinds:
  "list_all2 kind_match (take (length vs) slots) vs \<Longrightarrow>
     map (\<lambda>a. GetIndex (m_type a)) (store_values slots vs) = map (\<lambda>a. GetIndex (m_type a)) slots"
proof (induction slots arbitrary: vs)
  case Nil
  show ?case by (simp add: store_values_def)
next
  case (Cons a slots)
  then show ?case by (cases vs) (simp_all add: kind_match_def)
qed

lemma store_values_overwrite:
  "length ws = length slots \<Longrightarrow> store_values (store_values slots us) ws = store_values slots ws"
proof (induction slots arbitrary: us ws)
  case Nil
  then show ?case by (simp add: store_values_def)
next
  case (Cons a slots)
  then show ?case by (cases us; cases ws) simp_all
qed

lemma list_all2_kind_match_iff:
  "list_all2 kind_match slots vs \<longleftrightarrow> map (\<lambda>a. GetIndex (m_type a)) slots = map GetIndex vs"
proof (induction slots arbitrary: vs)
  case Nil
  show ?case by auto
next
  case (Cons a slots)
  then show ?case by (cases vs) (auto simp: kind_match_def)
qed

lemma find_distinct_nth:
  "distinct (map f xs) \<Longrightarrow> i < length xs \<Longrightarrow> find (\<lambda>x. f x = f (xs ! i)) xs = Some (xs ! i)"
proof (induction xs arbitrary: i)
  case Nil
  then show ?case by simp
next
  case (Cons x xs)
  then show ?case by (cases i) auto
qed

lemma IndexOf_inj: "IndexOf S = IndexOf T \<Longrightarrow> S = T"
  by (cases S; cases T) simp_all

subsection \<open>One argument at a time\<close>

lemma SetValues_aborted:
  "m_argsCounter ev = -1 \<Longrightarrow> SetValues ev t args = Inr (ev, [])"
  by (cases args) (simp_all add: SetValues_arg_def)

lemma SetValues_arg_match:
  assumes "m_eventArgs ev = done @ a # todo" "m_argsCounter ev = int (length done)"
    and "kind_match a t"
  shows "SetValues_arg ev t =
     Inr (CheckArgsCounter (ev\<lparr>m_eventArgs := done @ a\<lparr>m_type := t\<rparr> # todo\<rparr>))"
  using assms by (simp add: SetValues_arg_def kind_match_def Let_def)

lemma SetValues_arg_mismatch:
  assumes "m_eventArgs ev = done @ a # todo" "m_argsCounter ev = int (length done)"
    and "\<not> kind_match a t"
  shows "SetValues_arg ev t =
     Inr (ev\<lparr>m_argsCounter := -1\<rparr>,
          [Log (BroadcastMismatch (UGameEvent.m_name ev) (CEventArg.m_name a))])"
  using assms by (simp add: SetValues_arg_def kind_match_def Let_def)

lemma SetValues_arg_oob:
  assumes "m_argsCounter ev = int (length (m_eventArgs ev))"
  shows "SetValues_arg ev t =
     Inl (ArrayIndexOutOfBounds (int (length (m_eventArgs ev))) (length (m_eventArgs ev)))"
  using assms by (simp add: SetValues_arg_def Let_def)

lemma CheckArgsCounter_more:
  assumes "m_eventArgs ev = done @ a # b # todo" "m_argsCounter ev = int (length done)"
  shows "CheckArgsCounter ev = (ev\<lparr>m_argsCounter := int (length done) + 1\<rparr>, [])"
  using assms by (simp add: CheckArgsCounter_def Let_def)

lemma CheckArgsCounter_last:
  assumes "m_eventArgs ev = done @ [a]" "m_argsCounter ev = int (length done)"
  shows "CheckArgsCounter ev =
     (ev\<lparr>m_argsCounter := int (length done) + 1\<rparr>,
      BroadcastDelegate (ev\<lparr>m_argsCounter := int (length done) + 1\<rparr>))"
  using assms by (simp add: CheckArgsCounter_def Let_def)

lemma SetValues_arg_match_ex:
  assumes "m_eventArgs ev = done @ a # todo" "m_argsCounter ev = int (length done)"
    and "kind_match a t"
  shows "\<exists>fx. SetValues_arg ev t =
     Inr (ev\<lparr>m_eventArgs := (done @ [a\<lparr>m_type := t\<rparr>]) @ todo,
              m_argsCounter := int (length (done @ [a\<lparr>m_type := t\<rparr>]))\<rparr>, fx)"
  using assms
  by (simp add: SetValues_arg_match [where a = a and todo = todo] CheckArgsCounter_def Let_def
        ac_simps)

subsection \<open>The parameter pack\<close>

lemma SetValues_fill:
  assumes "m_eventArgs ev = done @ todo" "m_argsCounter ev = int (length done)"
    and "length (t # args) \<le> length todo"
    and "list_all2 kind_match (take (length (t # args)) todo) (t # args)"
  shows "SetValues ev t args =
     Inr (ev\<lparr>m_eventArgs := done @ store_values todo (t # args),
              m_argsCounter := int (length done) + int (length (t # args))\<rparr>,
          if length (t # args) = length todo
          then BroadcastDelegate
                 (ev\<lparr>m_eventArgs := done @ store_values todo (t # args),
                      m_argsCounter := int (length done) + int (length (t # args))\<rparr>)
          else [])"
  using assms
proof (induction args arbitrary: ev t "done" todo)
  case Nil
  from Nil.prems(3) obtain a todo' where todo: "todo = a # todo'"
    by (cases todo) auto
  with Nil.prems(4) have m: "kind_match a t" by simp
  show ?case
  proof (cases todo')
    case Nil
    with todo Nil.prems(1,2) m show ?thesis
      by (simp add: SetValues_arg_match [where a = a and todo = "[]"] CheckArgsCounter_def Let_def)
  next
    case (Cons b todo'')
    with todo Nil.prems(1,2) m show ?thesis
      by (simp add: SetValues_arg_match [where a = a and todo = "b # todo''"] CheckArgsCounter_def Let_def)
  qed
next
  case (Cons a' args')
  from Cons.prems(3) obtain a b todo' where todo: "todo = a # b # todo'"
    by (cases todo; cases "tl todo") auto
  with Cons.prems(4) have m: "kind_match a t"
    and rest: "list_all2 kind_match (take (length (a' # args')) (b # todo')) (a' # args')"
    by simp_all
  let ?ev1 = "ev\<lparr>m_eventArgs := (done @ [a\<lparr>m_type := t\<rparr>]) @ b # todo',
                  m_argsCounter := int (length (done @ [a\<lparr>m_type := t\<rparr>]))\<rparr>"
  have step: "SetValues_arg ev t = Inr (?ev1, [])"
    using todo Cons.prems(1,2) m
    by (simp add: SetValues_arg_match [where a = a and todo = "b # todo'"] CheckArgsCounter_def Let_def)
  have len: "length (a' # args') \<le> length (b # todo')"
    using Cons.prems(3) todo by simp
  have ih: "SetValues ?ev1 a' args' = Inr (?ev1\<lparr>m_eventArgs := (done @ [a\<lparr>m_type := t\<rparr>]) @ store_values (b # todo') (a' # args'),
              m_argsCounter := int (length (done @ [a\<lparr>m_type := t\<rparr>])) + int (length (a' # args'))\<rparr>,
          if length (a' # args') = length (b # todo')
          then BroadcastDelegate
                 (?ev1\<lparr>m_eventArgs := (done @ [a\<lparr>m_type := t\<rparr>]) @ store_values (b # todo') (a' # args'),
                      m_argsCounter := int (length (done @ [a\<lparr>m_type := t\<rparr>])) + int (length (a' # args'))\<rparr>)
          else [])"
    by (rule Cons.IH [OF _ _ len rest]) simp_all
  have c: "m_argsCounter ev \<noteq> -1" using Cons.prems(2) by simp
  show ?case
    using c step ih todo by (simp add: ac_simps cong: if_cong)
qed

lemma SetValues_mismatch:
  assumes "m_eventArgs ev = done @ todo" "m_argsCounter ev = int (length done)"
    and "i < length (t # args)" "i < length todo"
    and "list_all2 kind_match (take i todo) (take i (t # args))"
    and "\<not> kind_match (todo ! i) ((t # args) ! i)"
  shows "SetValues ev t args =
     Inr (ev\<lparr>m_eventArgs := done @ store_values todo (take i (t # args)),
              m_argsCounter := -1\<rparr>,
          [Log (BroadcastMismatch (UGameEvent.m_name ev) (CEventArg.m_name (todo ! i)))])"
  using assms
proof (induction args arbitrary: ev t "done" todo i)
  case Nil
  then obtain a todo' where todo: "todo = a # todo'" and i: "i = 0"
    by (cases todo) auto
  with Nil.prems show ?case
    by (simp add: SetValues_arg_mismatch [where a = a and todo = todo'])
next
  case (Cons a' args')
  from Cons.prems(4) obtain a todo' where todo: "todo = a # todo'"
    by (cases todo) auto
  have c: "m_argsCounter ev \<noteq> -1" using Cons.prems(2) by simp
  show ?case
  proof (cases i)
    case 0
    with todo Cons.prems have step: "SetValues_arg ev t =
        Inr (ev\<lparr>m_argsCounter := -1\<rparr>,
             [Log (BroadcastMismatch (UGameEvent.m_name ev) (CEventArg.m_name a))])"
      by (simp add: SetValues_arg_mismatch [where a = a and todo = todo'])
    have "SetValues (ev\<lparr>m_argsCounter := -1\<rparr>) a' args' = Inr (ev\<lparr>m_argsCounter := -1\<rparr>, [])"
      by (rule SetValues_aborted) simp
    with c step 0 todo Cons.prems(1) show ?thesis by simp
  next
    case (Suc j)
    with Cons.prems(4) todo obtain b todo'' where todo': "todo' = b # todo''"
      by (cases todo') auto
    from Suc Cons.prems(5) todo have m: "kind_match a t"
      and rest: "list_all2 kind_match (take j todo') (take j (a' # args'))"
      by simp_all
    let ?ev1 = "ev\<lparr>m_eventArgs := (done @ [a\<lparr>m_type := t\<rparr>]) @ todo',
                    m_argsCounter := int (length (done @ [a\<lparr>m_type := t\<rparr>]))\<rparr>"
    have step: "SetValues_arg ev t = Inr (?ev1, [])"
      using todo todo' Cons.prems(1,2) m
      by (simp add: SetValues_arg_match [where a = a and todo = "b # todo''"]
            CheckArgsCounter_def Let_def)
    have ih: "SetValues ?ev1 a' args' =
        Inr (?ev1\<lparr>m_eventArgs := (done @ [a\<lparr>m_type := t\<rparr>]) @ store_values todo' (take j (a' # args')),
                  m_argsCounter := -1\<rparr>,
             [Log (BroadcastMismatch (UGameEvent.m_name ?ev1) (CEventArg.m_name (todo' ! j)))])"
    proof (rule Cons.IH [OF _ _ _ _ rest])
      show "j < length (a' # args')" using Cons.prems(3) Suc by simp
      show "j < length todo'" using Cons.prems(4) Suc todo by simp
      show "\<not> kind_match (todo' ! j) ((a' # args') ! j)"
        using Cons.prems(6) Suc todo by simp
    qed simp_all
    show ?thesis
      using c step ih todo Suc by simp
  qed
qed

lemma SetValues_oob:
  assumes "m_eventArgs ev = done @ todo" "m_argsCounter ev = int (length done)"
    and "length todo < length (t # args)"
    and "list_all2 kind_match todo (take (length todo) (t # args))"
  shows "SetValues ev t args =
     Inl (ArrayIndexOutOfBounds (int (length (m_eventArgs ev))) (length (m_eventArgs ev)))"
  using assms
proof (induction args arbitrary: ev t "done" todo)
  case Nil
  then have "todo = []" by simp
  with Nil.prems(1,2) show ?case
    by (simp add: SetValues_arg_oob)
next
  case (Cons a' args')
  have c: "m_argsCounter ev \<noteq> -1" using Cons.prems(2) by simp
  show ?case
  proof (cases todo)
    case Nil
    with Cons.prems(1,2) c show ?thesis
      by (simp add: SetValues_arg_oob)
  next
    case (Cons a todo')
    with Cons.prems(4) have m: "kind_match a t"
      and rest: "list_all2 kind_match todo' (take (length todo') (a' # args'))"
      by simp_all
    let ?ev1 = "ev\<lparr>m_eventArgs := (done @ [a\<lparr>m_type := t\<rparr>]) @ todo',
                    m_argsCounter := int (length (done @ [a\<lparr>m_type := t\<rparr>]))\<rparr>"
    obtain fx where step: "SetValues_arg ev t = Inr (?ev1, fx)"
      using SetValues_arg_match_ex [where a = a and todo = todo' and ev = ev and t = t]
        Cons Cons.prems(1,2) m by auto
    have "SetValues ?ev1 a' args' =
        Inl (ArrayIndexOutOfBounds (int (length (m_eventArgs ?ev1))) (length (m_eventArgs ?ev1)))"
      by (rule Cons.IH [where ?done = "done @ [a\<lparr>m_type := t\<rparr>]" and todo = todo', OF _ _ _ rest])
         (use Cons.prems(3) Cons in simp_all)
    with c step Cons Cons.prems(1) show ?thesis by simp
  qed
qed

lemma SetValues_in_bounds:
  assumes "m_eventArgs ev = done @ todo" "m_argsCounter ev = int (length done)"
    and "length (t # args) \<le> length todo"
  shows "\<exists>r. SetValues ev t args = Inr r"
  using assms
proof (induction args arbitrary: ev t "done" todo)
  case Nil
  then obtain a todo' where todo: "todo = a # todo'"
    by (cases todo) auto
  with Nil.prems(1,2) show ?case
    by (cases "kind_match a t")
       (simp_all add: SetValues_arg_match [where a = a and todo = todo']
          SetValues_arg_mismatch [where a = a and todo = todo'])
next
  case (Cons a' args')
  then obtain a todo' where todo: "todo = a # todo'"
    by (cases todo) auto
  have c: "m_argsCounter ev \<noteq> -1" using Cons.prems(2) by simp
  show ?case
  proof (cases "kind_match a t")
    case True
    let ?ev1 = "ev\<lparr>m_eventArgs := (done @ [a\<lparr>m_type := t\<rparr>]) @ todo',
                    m_argsCounter := int (length (done @ [a\<lparr>m_type := t\<rparr>]))\<rparr>"
    obtain fx where step: "SetValues_arg ev t = Inr (?ev1, fx)"
      using SetValues_arg_match_ex [where a = a and todo = todo' and ev = ev and t = t]
        todo Cons.prems(1,2) True by auto
    have "\<exists>r. SetValues ?ev1 a' args' = Inr r"
      by (rule Cons.IH [where ?done = "done @ [a\<lparr>m_type := t\<rparr>]" and todo = todo'])
         (use Cons.prems(3) todo in simp_all)
    with c step show ?thesis by auto
  next
    case False
    with todo Cons.prems(1,2) have step: "SetValues_arg ev t =
        Inr (ev\<lparr>m_argsCounter := -1\<rparr>,
             [Log (BroadcastMismatch (UGameEvent.m_name ev) (CEventArg.m_name a))])"
      by (simp add: SetValues_arg_mismatch [where a = a and todo = todo'])
    have "SetValues (ev\<lparr>m_argsCounter := -1\<rparr>) a' args' = Inr (ev\<lparr>m_argsCounter := -1\<rparr>, [])"
      by (rule SetValues_aborted) simp
    with c step show ?thesis by simp
  qed
qed

subsection \<open>A whole broadcast\<close>

lemma BroadcastDelegate_subscribers:
  "BroadcastDelegate ev = map (\<lambda>cb. Invoke cb ev) (subscribers ev)"
  by (simp add: BroadcastDelegate_def Delegate_Broadcast_def subscribers_def)

lemma Broadcast_all_match:
  assumes "m_argsCounter ev = 0" "list_all2 kind_match (m_eventArgs ev) vs"
  shows "Broadcast_call ev vs =
     Inr ((filled ev vs)\<lparr>m_argsCounter := 0\<rparr>,
          map (\<lambda>cb. Invoke cb (filled ev vs)) (subscribers ev))"
proof (cases vs)
  case Nil
  with assms have "m_eventArgs ev = []" by simp
  with Nil assms(1) show ?thesis
    by (simp add: Broadcast_call_def Broadcast0_def BroadcastDelegate_subscribers filled_def)
next
  case (Cons t args)
  have len: "length (t # args) = length (m_eventArgs ev)"
    using assms(2) Cons by (simp add: list_all2_lengthD)
  have "SetValues ev t args =
     Inr (ev\<lparr>m_eventArgs := [] @ store_values (m_eventArgs ev) (t # args),
              m_argsCounter := int (length ([]::CEventArg list)) + int (length (t # args))\<rparr>,
          if length (t # args) = length (m_eventArgs ev)
          then BroadcastDelegate
                 (ev\<lparr>m_eventArgs := [] @ store_values (m_eventArgs ev) (t # args),
                      m_argsCounter := int (length ([]::CEventArg list)) + int (length (t # args))\<rparr>)
          else [])"
    by (rule SetValues_fill) (use assms Cons len in simp_all)
  with len Cons assms(1) show ?thesis
    by (simp add: Broadcast_call_def Broadcast_def BroadcastDelegate_subscribers filled_def
          subscribers_def)
qed

lemma GetValue_filled:
  assumes "list_all2 kind_match (m_eventArgs ev) vs"
    and "distinct (map CEventArg.m_name (m_eventArgs ev))"
    and "i < length vs" "IndexOf T = GetIndex (m_type (m_eventArgs ev ! i))"
  shows "GetValue (filled ev vs) (CEventArg.m_name (m_eventArgs ev ! i)) T = Inr (vs ! i)"
proof -
  let ?slots = "store_values (m_eventArgs ev) vs"
  have len: "length vs = length (m_eventArgs ev)"
    using assms(1) by (simp add: list_all2_lengthD)
  have nth: "?slots ! i = (m_eventArgs ev ! i)\<lparr>m_type := vs ! i\<rparr>"
    using assms(3) len by (simp add: store_values_nth)
  have "distinct (map CEventArg.m_name ?slots)"
    using assms(2) by (simp add: store_values_names)
  then have "find (\<lambda>x. CEventArg.m_name x = CEventArg.m_name (?slots ! i)) ?slots = Some (?slots ! i)"
    by (rule find_distinct_nth) (use assms(3) len in simp)
  then have f: "find (\<lambda>x. CEventArg.m_name x = CEventArg.m_name (m_eventArgs ev ! i)) ?slots
      = Some ((m_eventArgs ev ! i)\<lparr>m_type := vs ! i\<rparr>)"
    by (simp add: nth)
  have "kind_match (m_eventArgs ev ! i) (vs ! i)"
    using assms(1,3) by (simp add: list_all2_nthD2)
  with assms(4) have "GetIndex (vs ! i) = IndexOf T"
    by (simp add: kind_match_def)
  with f show ?thesis
    by (simp add: GetValue_def filled_def)
qed

lemma Broadcast_mismatch:
  assumes "m_argsCounter ev = 0" "i < length (m_eventArgs ev)" "i < length vs"
    and "list_all2 kind_match (take i (m_eventArgs ev)) (take i vs)"
    and "\<not> kind_match (m_eventArgs ev ! i) (vs ! i)"
  shows "Broadcast_call ev vs =
     Inr (ev\<lparr>m_eventArgs := store_values (m_eventArgs ev) (take i vs), m_argsCounter := 0\<rparr>,
          [Log (BroadcastMismatch (UGameEvent.m_name ev) (CEventArg.m_name (m_eventArgs ev ! i))),
           Log (BroadcastFailed (UGameEvent.m_name ev) (-1) (length (m_eventArgs ev)))])"
proof -
  from assms(3) obtain t args where vs: "vs = t # args" by (cases vs) auto
  have "SetValues ev t args =
     Inr (ev\<lparr>m_eventArgs := [] @ store_values (m_eventArgs ev) (take i (t # args)),
              m_argsCounter := -1\<rparr>,
          [Log (BroadcastMismatch (UGameEvent.m_name ev) (CEventArg.m_name (m_eventArgs ev ! i)))])"
    by (rule SetValues_mismatch) (use assms vs in simp_all)
  then show ?thesis
    by (simp add: Broadcast_call_def Broadcast_def vs)
qed

lemma Broadcast_too_few:
  assumes "m_argsCounter ev = 0" "vs \<noteq> []" "length vs < length (m_eventArgs ev)"
    and "list_all2 kind_match (take (length vs) (m_eventArgs ev)) vs"
  shows "Broadcast_call ev vs =
     Inr (ev\<lparr>m_eventArgs := store_values (m_eventArgs ev) vs, m_argsCounter := 0\<rparr>,
          [Log (BroadcastFailed (UGameEvent.m_name ev) (int (length vs)) (length (m_eventArgs ev)))])"
proof -
  from assms(2) obtain t args where vs: "vs = t # args" by (cases vs) auto
  have "SetValues ev t args =
     Inr (ev\<lparr>m_eventArgs := [] @ store_values (m_eventArgs ev) (t # args),
              m_argsCounter := int (length ([]::CEventArg list)) + int (length (t # args))\<rparr>,
          if length (t # args) = length (m_eventArgs ev)
          then BroadcastDelegate
                 (ev\<lparr>m_eventArgs := [] @ store_values (m_eventArgs ev) (t # args),
                      m_argsCounter := int (length ([]::CEventArg list)) + int (length (t # args))\<rparr>)
          else [])"
    by (rule SetValues_fill) (use assms vs in simp_all)
  with assms(3) show ?thesis
    by (simp add: Broadcast_call_def Broadcast_def vs)
qed

lemma Broadcast_in_bounds:
  assumes "m_argsCounter ev = 0" "length vs \<le> length (m_eventArgs ev)"
  shows "\<exists>r. Broadcast_call ev vs = Inr r"
proof (cases vs)
  case Nil
  then show ?thesis by (simp add: Broadcast_call_def)
next
  case (Cons t args)
  have "\<exists>r. SetValues ev t args = Inr r"
    by (rule SetValues_in_bounds [where ?done = "[]" and todo = "m_eventArgs ev"])
       (use assms Cons in simp_all)
  then show ?thesis
    by (auto simp: Broadcast_call_def Broadcast_def Cons)
qed

lemma Broadcast_oob:
  assumes "m_argsCounter ev = 0" "length (m_eventArgs ev) < length vs"
    and "list_all2 kind_match (m_eventArgs ev) (take (length (m_eventArgs ev)) vs)"
  shows "Broadcast_call ev vs =
     Inl (ArrayIndexOutOfBounds (int (length (m_eventArgs ev))) (length (m_eventArgs ev)))"
proof -
  from assms(2) obtain t args where vs: "vs = t # args" by (cases vs) auto
  have "SetValues ev t args =
     Inl (ArrayIndexOutOfBounds (int (length (m_eventArgs ev))) (length (m_eventArgs ev)))"
    by (rule SetValues_oob [where ?done = "[]" and todo = "m_eventArgs ev"])
       (use assms vs in simp_all)
  then show ?thesis
    by (simp add: Broadcast_call_def Broadcast_def vs)
qed

subsection \<open>The registry\<close>

lemma Setup_args_eq:
  "Setup_args ev args =
     ev\<lparr>m_eventArgs := m_eventArgs ev
          @ map (\<lambda>arg. \<lparr>CEventArg.m_name = fst arg, m_type = argType (snd arg)\<rparr>) args\<rparr>"
  by (induction args arbitrary: ev) simp_all

lemma Setup_rows_lookup:
  "m_events (Setup_rows mgr dt names) name =
     (if name \<in> set names
      then (case FindRow dt name of
              None \<Rightarrow> m_events mgr name
            | Some row \<Rightarrow>
                Some (Setup_args ((NewObject (m_isDynamic row))\<lparr>UGameEvent.m_name := name\<rparr>)
                        (m_args row)))
      else m_events mgr name)"
proof (induction names arbitrary: mgr)
  case Nil
  show ?case by simp
next
  case (Cons x names)
  show ?case
  proof (cases "FindRow dt x")
    case None
    with Cons.IH [of mgr] show ?thesis by auto
  next
    case (Some row)
    with Cons.IH [of "mgr\<lparr>m_events := (m_events mgr)
        (x \<mapsto> Setup_args ((NewObject (m_isDynamic row))\<lparr>UGameEvent.m_name := x\<rparr>) (m_args row))\<rparr>"]
    show ?thesis by (auto simp: Let_def split: option.splits)
  qed
qed

lemma FindRow_in_names: "FindRow dt name = Some row \<Longrightarrow> name \<in> set (GetRowNames dt)"
  by (auto simp: FindRow_def GetRowNames_def dest: map_of_SomeD intro: rev_image_eqI)

subsection \<open>The schema is invariant\<close>

lemma CheckArgsCounter_slots:
  "CheckArgsCounter ev = (ev', fx) \<Longrightarrow> m_eventArgs ev' = m_eventArgs ev"
  by (auto simp: CheckArgsCounter_def Let_def split: if_splits)

lemma SetValues_arg_writes:
  assumes "SetValues_arg ev v = Inr (ev', fx)"
  shows "m_eventArgs ev' = m_eventArgs ev
       \<or> (0 \<le> m_argsCounter ev \<and> nat (m_argsCounter ev) < length (m_eventArgs ev)
          \<and> kind_match (m_eventArgs ev ! nat (m_argsCounter ev)) v
          \<and> m_eventArgs ev' = (m_eventArgs ev)
               [nat (m_argsCounter ev) := (m_eventArgs ev ! nat (m_argsCounter ev))\<lparr>m_type := v\<rparr>])"
  using assms
  by (auto simp: SetValues_arg_def Let_def kind_match_def split: if_splits
        dest!: CheckArgsCounter_slots)

lemma kinds_update:
  "k < length slots \<Longrightarrow> kind_match (slots ! k) v \<Longrightarrow>
     map (\<lambda>a. (CEventArg.m_name a, GetIndex (m_type a))) (slots[k := (slots ! k)\<lparr>m_type := v\<rparr>])
       = map (\<lambda>a. (CEventArg.m_name a, GetIndex (m_type a))) slots"
  by (simp add: map_update kind_match_def list_update_same_conv)

lemma SetValues_arg_schema:
  "SetValues_arg ev v = Inr (ev', fx) \<Longrightarrow> schema ev' = schema ev"
  using SetValues_arg_writes [of ev v ev' fx] by (auto simp: schema_def kinds_update)

lemma SetValues_schema:
  "SetValues ev t args = Inr (ev', fx) \<Longrightarrow> schema ev' = schema ev"
proof (induction args arbitrary: ev t ev' fx)
  case Nil
  then show ?case by (simp add: SetValues_arg_schema)
next
  case (Cons a args)
  show ?case
  proof (cases "m_argsCounter ev = -1")
    case True
    with Cons.prems show ?thesis by simp
  next
    case False
    with Cons.prems obtain ev1 fx1 fx2
      where s1: "SetValues_arg ev t = Inr (ev1, fx1)"
        and s2: "SetValues ev1 a args = Inr (ev', fx2)"
      by (auto split: sum.splits)
    from Cons.IH [OF s2] SetValues_arg_schema [OF s1] show ?thesis by simp
  qed
qed

lemma Broadcast_call_schema:
  "Broadcast_call ev vs = Inr (ev', fx) \<Longrightarrow> schema ev' = schema ev"
  by (cases vs)
     (auto simp: Broadcast_call_def Broadcast0_def Broadcast_def schema_def
        split: sum.splits dest: SetValues_schema [unfolded schema_def])

lemma run_calls_schema:
  "run_calls ev calls = Inr ev' \<Longrightarrow> schema ev' = schema ev"
proof (induction calls arbitrary: ev)
  case Nil
  then show ?case by simp
next
  case (Cons c calls)
  show ?case
  proof (cases c)
    case (Call_Broadcast vs)
    with Cons.prems obtain ev1 fx where b: "Broadcast_call ev vs = Inr (ev1, fx)"
      and r: "run_calls ev1 calls = Inr ev'"
      by (auto split: sum.splits)
    from Cons.IH [OF r] Broadcast_call_schema [OF b] show ?thesis by simp
  next
    case (Call_GetValue name T)
    with Cons.prems have "run_calls ev calls = Inr ev'"
      by (simp split: sum.splits)
    then show ?thesis by (rule Cons.IH)
  qed
qed

subsection \<open>Events at rest\<close>

text \<open>Between calls the counter of an event is 0: \<open>Setup\<close> builds it so, and every call
  that returns leaves it so. The slot names of a built event are the keys of its row.\<close>

lemma Broadcast_call_rest:
  "Broadcast_call ev vs = Inr (ev', fx) \<Longrightarrow> m_argsCounter ev = 0 \<Longrightarrow> m_argsCounter ev' = 0"
  by (cases vs) (auto simp: Broadcast_call_def Broadcast0_def Broadcast_def split: sum.splits)

lemma run_calls_rest:
  "run_calls ev calls = Inr ev' \<Longrightarrow> m_argsCounter ev = 0 \<Longrightarrow> m_argsCounter ev' = 0"
proof (induction calls arbitrary: ev)
  case Nil
  then show ?case by simp
next
  case (Cons c calls)
  show ?case
  proof (cases c)
    case (Call_Broadcast vs)
    with Cons.prems obtain ev1 fx where b: "Broadcast_call ev vs = Inr (ev1, fx)"
      and r: "run_calls ev1 calls = Inr ev'"
      by (auto split: sum.splits)
    from Broadcast_call_rest [OF b Cons.prems(2)] r show ?thesis by (rule Cons.IH [rotated])
  next
    case (Call_GetValue name T)
    with Cons.prems have "run_calls ev calls = Inr ev'"
      by (simp split: sum.splits)
    with Cons.prems(2) show ?thesis by (rule Cons.IH [rotated])
  qed
qed

lemma registerSubscriber_rest:
  "m_argsCounter (registerSubscriber ev cb) = m_argsCounter ev
 \<and> m_eventArgs (registerSubscriber ev cb) = m_eventArgs ev"
  by (simp add: registerSubscriber_def)

lemma built_event_at_rest:
  assumes "FindRow dt name = Some row" "distinct (map fst (m_args row))"
  shows "\<exists>ev. m_events (Setup_rows mgr dt (GetRowNames dt)) name = Some ev
       \<and> m_argsCounter ev = 0 \<and> distinct (map CEventArg.m_name (m_eventArgs ev))"
  using assms FindRow_in_names [OF assms(1)]
  by (simp add: Setup_rows_lookup Setup_args_eq NewObject_def comp_def)

subsection \<open>Setup as a whole\<close>






section \<open>The claims\<close>

subsection \<open>C1\<close>

text \<open>
  Claim C1. An event at rest (counter 0) whose slot names are distinct (they are the keys
  of the row's \<open>TMap\<close>) receives a broadcast of exactly as many values as it has slots,
  each of the kind of its slot. Then the call returns; every subscriber of the event is
  invoked exactly once, in registration order, with the event holding the values; inside
  the callback \<open>GetValue\<close> at the name and the declared kind of slot \<open>i\<close> returns the
  \<open>i\<close>-th value just broadcast; and the counter is 0 on return. Registering a callback
  puts it after those registered before.
\<close>

theorem C1_matching_broadcast_invokes_every_subscriber:
  assumes "m_argsCounter ev = 0"
    and "list_all2 kind_match (m_eventArgs ev) vs"
    and "distinct (map CEventArg.m_name (m_eventArgs ev))"
  shows "Broadcast_call ev vs =
           Inr ((filled ev vs)\<lparr>m_argsCounter := 0\<rparr>,
                map (\<lambda>cb. Invoke cb (filled ev vs)) (subscribers ev))
       \<and> (\<forall>i T. i < length vs \<and> IndexOf T = GetIndex (m_type (m_eventArgs ev ! i)) \<longrightarrow>
             GetValue (filled ev vs) (CEventArg.m_name (m_eventArgs ev ! i)) T = Inr (vs ! i))
       \<and> subscribers (registerSubscriber ev cb) = subscribers ev @ [cb]"
  using Broadcast_all_match [OF assms(1,2)] GetValue_filled [OF assms(2,3)]
  by (simp add: registerSubscriber_def subscribers_def Delegate_Add_def)

text \<open>The theorem of C1 at a concrete input.\<close>

theorem C1_witness:
  "m_argsCounter OnDamaged = 0
 \<and> list_all2 kind_match (m_eventArgs OnDamaged) [V_int 5, V_bool True]
 \<and> distinct (map CEventArg.m_name (m_eventArgs OnDamaged))
 \<and> Broadcast_call OnDamaged [V_int 5, V_bool True] =
     Inr (OnDamaged\<lparr>m_eventArgs := [\<lparr>CEventArg.m_name = ''amount'', m_type = V_int 5\<rparr>,
                                     \<lparr>CEventArg.m_name = ''critical'', m_type = V_bool True\<rparr>]\<rparr>,
          [Invoke 1 (filled OnDamaged [V_int 5, V_bool True]),
           Invoke 2 (filled OnDamaged [V_int 5, V_bool True])])
 \<and> GetValue (filled OnDamaged [V_int 5, V_bool True]) ''amount'' T_int = Inr (V_int 5)
 \<and> GetValue (filled OnDamaged [V_int 5, V_bool True]) ''critical'' T_bool = Inr (V_bool True)
 \<and> subscribers (registerSubscriber OnDamaged 3) = [1, 2, 3]"
proof -
  have h1: "m_argsCounter OnDamaged = 0"
    by (simp add: OnDamaged_def)
  have h2: "list_all2 kind_match (m_eventArgs OnDamaged) [V_int 5, V_bool True]"
    by (simp add: OnDamaged_def kind_match_def GetIndex_def)
  have h3: "distinct (map CEventArg.m_name (m_eventArgs OnDamaged))"
    by (simp add: OnDamaged_def)
  note c = C1_matching_broadcast_invokes_every_subscriber [OF h1 h2 h3, of 3]
  have g0: "GetValue (filled OnDamaged [V_int 5, V_bool True]) ''amount'' T_int = Inr (V_int 5)"
    using c [THEN conjunct2, THEN conjunct1, rule_format, of 0 T_int]
    by (simp add: OnDamaged_def GetIndex_def)
  have g1: "GetValue (filled OnDamaged [V_int 5, V_bool True]) ''critical'' T_bool = Inr (V_bool True)"
    using c [THEN conjunct2, THEN conjunct1, rule_format, of 1 T_bool]
    by (simp add: OnDamaged_def GetIndex_def)
  show ?thesis
    using h1 h2 h3 g0 g1 c [THEN conjunct1] c [THEN conjunct2, THEN conjunct2]
    by (simp add: filled_def OnDamaged_def subscribers_def)
qed

subsection \<open>C2\<close>

text \<open>
  Claim C2. An event at rest receives a broadcast whose value at position \<open>i\<close> (below
  the number of slots) has another kind than slot \<open>i\<close>, the values before it matching
  their slots. Then the call returns with the counter 0; it logs the mismatch line with
  the name of the event and of slot \<open>i\<close>, then the failure line, and invokes no callback
  (the two log lines are all it does); the slots from \<open>i\<close> on are unchanged; and a later
  broadcast of matching values \<open>ws\<close> on the event it leaves behaves as on the event
  before.
\<close>

theorem C2_kind_mismatch_aborts_broadcast:
  assumes "m_argsCounter ev = 0" "i < length (m_eventArgs ev)" "i < length vs"
    and "list_all2 kind_match (take i (m_eventArgs ev)) (take i vs)"
    and "\<not> kind_match (m_eventArgs ev ! i) (vs ! i)"
  shows "Broadcast_call ev vs =
           Inr ((filled ev (take i vs))\<lparr>m_argsCounter := 0\<rparr>,
                [Log (BroadcastMismatch (UGameEvent.m_name ev)
                        (CEventArg.m_name (m_eventArgs ev ! i))),
                 Log (BroadcastFailed (UGameEvent.m_name ev) (-1) (length (m_eventArgs ev)))])
       \<and> drop i (m_eventArgs (filled ev (take i vs))) = drop i (m_eventArgs ev)
       \<and> (\<forall>ws. list_all2 kind_match (m_eventArgs ev) ws \<longrightarrow>
             Broadcast_call ((filled ev (take i vs))\<lparr>m_argsCounter := 0\<rparr>) ws =
               Inr ((filled ev ws)\<lparr>m_argsCounter := 0\<rparr>,
                    map (\<lambda>cb. Invoke cb (filled ev ws)) (subscribers ev)))"
proof (intro conjI allI impI)
  let ?ev' = "(filled ev (take i vs))\<lparr>m_argsCounter := 0\<rparr>"
  have len: "length (take i vs) = i" using assms(3) by simp
  show "Broadcast_call ev vs =
      Inr (?ev', [Log (BroadcastMismatch (UGameEvent.m_name ev)
                        (CEventArg.m_name (m_eventArgs ev ! i))),
                 Log (BroadcastFailed (UGameEvent.m_name ev) (-1) (length (m_eventArgs ev)))])"
    using Broadcast_mismatch [OF assms] by (simp add: filled_def)
  show "drop i (m_eventArgs (filled ev (take i vs))) = drop i (m_eventArgs ev)"
    using store_values_drop [of "take i vs" "m_eventArgs ev"] len by (simp add: filled_def)
  fix ws
  assume ws: "list_all2 kind_match (m_eventArgs ev) ws"
  have m: "list_all2 kind_match (take (length (take i vs)) (m_eventArgs ev)) (take i vs)"
    using assms(4) len by simp
  have "map (\<lambda>a. GetIndex (m_type a)) (m_eventArgs ?ev') =
      map (\<lambda>a. GetIndex (m_type a)) (m_eventArgs ev)"
    using store_values_kinds [OF m] by (simp add: filled_def)
  with ws have "list_all2 kind_match (m_eventArgs ?ev') ws"
    by (simp only: list_all2_kind_match_iff)
  moreover have "m_argsCounter ?ev' = 0" by simp
  ultimately have "Broadcast_call ?ev' ws =
      Inr ((filled ?ev' ws)\<lparr>m_argsCounter := 0\<rparr>,
           map (\<lambda>cb. Invoke cb (filled ?ev' ws)) (subscribers ?ev'))"
    by (rule Broadcast_all_match [rotated])
  moreover have "filled ?ev' ws = filled ev ws"
    using ws assms(1) by (simp add: filled_def store_values_overwrite list_all2_lengthD)
  moreover have "subscribers ?ev' = subscribers ev"
    by (simp add: subscribers_def filled_def)
  ultimately show "Broadcast_call ?ev' ws =
      Inr ((filled ev ws)\<lparr>m_argsCounter := 0\<rparr>,
           map (\<lambda>cb. Invoke cb (filled ev ws)) (subscribers ev))"
    by simp
qed

text \<open>The theorem of C2 at a concrete input.\<close>

theorem C2_witness:
  "m_argsCounter OnDamaged = 0
 \<and> 1 < length (m_eventArgs OnDamaged) \<and> 1 < length [V_int 5, V_double 1]
 \<and> list_all2 kind_match (take 1 (m_eventArgs OnDamaged)) (take 1 [V_int 5, V_double 1])
 \<and> \<not> kind_match (m_eventArgs OnDamaged ! 1) ([V_int 5, V_double 1] ! 1)
 \<and> Broadcast_call OnDamaged [V_int 5, V_double 1] =
     Inr (OnDamaged\<lparr>m_eventArgs := [\<lparr>CEventArg.m_name = ''amount'', m_type = V_int 5\<rparr>,
                                     \<lparr>CEventArg.m_name = ''critical'', m_type = V_bool False\<rparr>]\<rparr>,
          [Log (BroadcastMismatch ''OnDamaged'' ''critical''),
           Log (BroadcastFailed ''OnDamaged'' (-1) 2)])"
proof -
  have h1: "m_argsCounter OnDamaged = 0"
    by (simp add: OnDamaged_def)
  have h2: "1 < length (m_eventArgs OnDamaged)"
    by (simp add: OnDamaged_def)
  have h3: "1 < length [V_int 5, V_double 1]"
    by simp
  have h4: "list_all2 kind_match (take 1 (m_eventArgs OnDamaged)) (take 1 [V_int 5, V_double 1])"
    by (simp add: OnDamaged_def kind_match_def GetIndex_def)
  have h5: "\<not> kind_match (m_eventArgs OnDamaged ! 1) ([V_int 5, V_double 1] ! 1)"
    by (simp add: OnDamaged_def kind_match_def GetIndex_def)
  show ?thesis
    using h1 h2 h3 h4 h5 C2_kind_mismatch_aborts_broadcast [OF h1 h2 h3 h4 h5, THEN conjunct1]
    by (simp add: filled_def OnDamaged_def)
qed

subsection \<open>C3\<close>

text \<open>
  Claim C3 as stated fails: on \<open>OnDamaged\<close>, whose schema has two slots, the broadcast
  without arguments invokes both subscribers and logs no error.
\<close>

theorem C3_counterexample:
  "m_eventArgs OnDamaged \<noteq> []
 \<and> map_sum id (\<lambda>(ev', fx). (ev', invoked fx, logged fx)) (Broadcast_call OnDamaged []) =
     Inr (OnDamaged, [1, 2], [])"
  by (simp add: OnDamaged_def Broadcast_call_def Broadcast0_def BroadcastDelegate_def
        Delegate_Broadcast_def)

text \<open>
  Claim C3, as amended. A broadcast without arguments broadcasts the delegate of the
  event whatever its schema: every subscriber is invoked, as by a broadcast that fills
  all slots; nothing is logged, and slots and counter stay as they are.
\<close>

theorem C3_zero_argument_broadcast_always_invokes:
  "Broadcast_call ev [] = Inr (ev, map (\<lambda>cb. Invoke cb ev) (subscribers ev))"
  by (simp add: Broadcast_call_def Broadcast0_def BroadcastDelegate_subscribers)

text \<open>The theorem of C3 at a concrete input.\<close>

theorem C3_witness:
  "Broadcast_call OnLanded [] = Inr (OnLanded, [Invoke 7 OnLanded])"
  using C3_zero_argument_broadcast_always_invokes [of OnLanded]
  by (simp add: subscribers_def OnLanded_def)

subsection \<open>C4\<close>

text \<open>
  Claim C4 as stated fails for a broadcast of no values: on \<open>OnLanded\<close>, which has one
  slot, it invokes the subscriber and logs no failure.
\<close>

theorem C4_counterexample:
  "0 < length (m_eventArgs OnLanded)
 \<and> length ([] :: EventArgType list) < length (m_eventArgs OnLanded)
 \<and> list_all2 kind_match (take (length ([] :: EventArgType list)) (m_eventArgs OnLanded)) []
 \<and> map_sum id (\<lambda>(ev', fx). (ev', invoked fx, logged fx)) (Broadcast_call OnLanded []) =
     Inr (OnLanded, [7], [])"
  by (simp add: OnLanded_def Broadcast_call_def Broadcast0_def BroadcastDelegate_def
        Delegate_Broadcast_def)

text \<open>
  Claim C4, as amended. An event at rest receives a broadcast of at least one and fewer
  values than it has slots, each of the kind of its slot. Then the call returns, having
  stored the values, with the counter 0; all it does besides is log the failure line
  with the count of values and the number of slots: no callback is invoked.
\<close>

theorem C4_too_few_values_reports_failure:
  assumes "m_argsCounter ev = 0" "vs \<noteq> []" "length vs < length (m_eventArgs ev)"
    and "list_all2 kind_match (take (length vs) (m_eventArgs ev)) vs"
  shows "Broadcast_call ev vs =
           Inr ((filled ev vs)\<lparr>m_argsCounter := 0\<rparr>,
                [Log (BroadcastFailed (UGameEvent.m_name ev) (int (length vs))
                        (length (m_eventArgs ev)))])"
  using Broadcast_too_few [OF assms] by (simp add: filled_def)

text \<open>The theorem of C4 at a concrete input.\<close>

theorem C4_witness:
  "m_argsCounter OnDamaged = 0 \<and> [V_int 5] \<noteq> []
 \<and> length [V_int 5] < length (m_eventArgs OnDamaged)
 \<and> list_all2 kind_match (take (length [V_int 5]) (m_eventArgs OnDamaged)) [V_int 5]
 \<and> Broadcast_call OnDamaged [V_int 5] =
     Inr (OnDamaged\<lparr>m_eventArgs := [\<lparr>CEventArg.m_name = ''amount'', m_type = V_int 5\<rparr>,
                                     \<lparr>CEventArg.m_name = ''critical'', m_type = V_bool False\<rparr>]\<rparr>,
          [Log (BroadcastFailed ''OnDamaged'' 1 2)])"
proof -
  have h1: "m_argsCounter OnDamaged = 0"
    by (simp add: OnDamaged_def)
  have h2: "[V_int 5] \<noteq> []"
    by simp
  have h3: "length [V_int 5] < length (m_eventArgs OnDamaged)"
    by (simp add: OnDamaged_def)
  have h4: "list_all2 kind_match (take (length [V_int 5]) (m_eventArgs OnDamaged)) [V_int 5]"
    by (simp add: OnDamaged_def kind_match_def GetIndex_def)
  show ?thesis
    using h1 h2 h3 h4 C4_too_few_values_reports_failure [OF h1 h2 h3 h4]
    by (simp add: filled_def OnDamaged_def)
qed

subsection \<open>C5\<close>

text \<open>
  Claim C5. \<open>GetValue<T>(name)\<close> logs the not-found line and returns \<open>T()\<close> when no slot
  has the name. Otherwise, with \<open>i\<close> the first slot of that name, it returns the variant
  stored in slot \<open>i\<close> when its active type is \<open>T\<close>, and logs the wrong-type line and
  returns \<open>T()\<close> when it is not. A value it returns from a slot always has the active
  type \<open>T\<close>.
\<close>

theorem C5_GetValue_checked:
  "(name \<notin> CEventArg.m_name ` set (m_eventArgs ev) \<longrightarrow>
      GetValue ev name T = Inl (VariableNotFound name (UGameEvent.m_name ev)))
 \<and> (\<forall>i. i < length (m_eventArgs ev) \<and> CEventArg.m_name (m_eventArgs ev ! i) = name
          \<and> (\<forall>j<i. CEventArg.m_name (m_eventArgs ev ! j) \<noteq> name) \<longrightarrow>
        GetValue ev name T =
          (if TypeOf (m_type (m_eventArgs ev ! i)) = T then Inr (m_type (m_eventArgs ev ! i))
           else Inl (WrongType name (UGameEvent.m_name ev))))
 \<and> (\<forall>v. GetValue ev name T = Inr v \<longrightarrow> TypeOf v = T)"
proof (intro conjI allI impI)
  assume "name \<notin> CEventArg.m_name ` set (m_eventArgs ev)"
  then have "find (\<lambda>arg. CEventArg.m_name arg = name) (m_eventArgs ev) = None"
    by (auto simp: find_None_iff)
  then show "GetValue ev name T = Inl (VariableNotFound name (UGameEvent.m_name ev))"
    by (simp add: GetValue_def)
next
  fix i
  assume "i < length (m_eventArgs ev) \<and> CEventArg.m_name (m_eventArgs ev ! i) = name
          \<and> (\<forall>j<i. CEventArg.m_name (m_eventArgs ev ! j) \<noteq> name)"
  then have "find (\<lambda>arg. CEventArg.m_name arg = name) (m_eventArgs ev) = Some (m_eventArgs ev ! i)"
    by (auto simp: find_Some_iff)
  then show "GetValue ev name T =
          (if TypeOf (m_type (m_eventArgs ev ! i)) = T then Inr (m_type (m_eventArgs ev ! i))
           else Inl (WrongType name (UGameEvent.m_name ev)))"
    by (auto simp: GetValue_def GetIndex_def dest: IndexOf_inj)
next
  fix v
  assume "GetValue ev name T = Inr v"
  then show "TypeOf v = T"
    by (auto simp: GetValue_def GetIndex_def split: option.splits if_splits dest: IndexOf_inj)
qed

text \<open>The theorem of C5 at a concrete input.\<close>

theorem C5_witness:
  "''speed'' \<notin> CEventArg.m_name ` set (m_eventArgs OnDamaged)
 \<and> GetValue OnDamaged ''speed'' T_int = Inl (VariableNotFound ''speed'' ''OnDamaged'')
 \<and> GetValue OnDamaged ''critical'' T_int = Inl (WrongType ''critical'' ''OnDamaged'')
 \<and> GetValue OnDamaged ''critical'' T_bool = Inr (V_bool False)"
proof -
  have h1: "''speed'' \<notin> CEventArg.m_name ` set (m_eventArgs OnDamaged)"
    by (simp add: OnDamaged_def)
  have h2: "1 < length (m_eventArgs OnDamaged)
      \<and> CEventArg.m_name (m_eventArgs OnDamaged ! 1) = ''critical''
      \<and> (\<forall>j<1. CEventArg.m_name (m_eventArgs OnDamaged ! j) \<noteq> ''critical'')"
    by (simp add: OnDamaged_def)
  note c = C5_GetValue_checked [of _ OnDamaged]
  show ?thesis
    using h1 c [of "''speed''" T_int, THEN conjunct1, rule_format, OF h1]
      c [of "''critical''" T_int, THEN conjunct2, THEN conjunct1, rule_format, OF h2]
      c [of "''critical''" T_bool, THEN conjunct2, THEN conjunct1, rule_format, OF h2]
    by (simp add: OnDamaged_def)
qed

subsection \<open>C7\<close>

text \<open>
  Claim C7. For a name the registry does not hold, \<open>Get\<close> fails its \<open>check\<close> and
  \<open>GetDynamic\<close> returns the null pointer with \<open>success = false\<close>; after \<open>Clear\<close> this is
  so for every name. For a name the registry holds, \<open>GetDynamic\<close> returns the event with
  \<open>success = true\<close> (and \<open>Get\<close> returns the event).
\<close>

theorem C7_lookup_of_unknown_name:
  "(m_events mgr name = None \<longrightarrow>
      Get mgr name = Inl CheckFailed \<and> GetDynamic mgr name = (None, False))
 \<and> Get (Clear mgr) name = Inl CheckFailed
 \<and> GetDynamic (Clear mgr) name = (None, False)
 \<and> (\<forall>ev. m_events mgr name = Some ev \<longrightarrow>
        GetDynamic mgr name = (Some ev, True) \<and> Get mgr name = Inr ev)"
  by (auto simp: Get_def GetDynamic_def Clear_def)

text \<open>The theorem of C7 at a concrete input.\<close>

theorem C7_witness:
  "m_events (empty_manager definitions) ''OnLanded'' = None
 \<and> Get (empty_manager definitions) ''OnLanded'' = Inl CheckFailed
 \<and> GetDynamic (empty_manager definitions) ''OnLanded'' = (None, False)
 \<and> m_events ((empty_manager definitions)\<lparr>m_events := [''OnLanded'' \<mapsto> OnLanded]\<rparr>) ''OnLanded''
     = Some OnLanded
 \<and> GetDynamic ((empty_manager definitions)\<lparr>m_events := [''OnLanded'' \<mapsto> OnLanded]\<rparr>) ''OnLanded''
     = (Some OnLanded, True)
 \<and> Get (Clear ((empty_manager definitions)\<lparr>m_events := [''OnLanded'' \<mapsto> OnLanded]\<rparr>)) ''OnLanded''
     = Inl CheckFailed"
proof -
  let ?m = "(empty_manager definitions)\<lparr>m_events := [''OnLanded'' \<mapsto> OnLanded]\<rparr>"
  have h1: "m_events (empty_manager definitions) ''OnLanded'' = None"
    by (simp add: empty_manager_def)
  have h2: "m_events ?m ''OnLanded'' = Some OnLanded"
    by simp
  show ?thesis
    using h1 h2
      C7_lookup_of_unknown_name [of "empty_manager definitions" "''OnLanded''",
        THEN conjunct1, rule_format, OF h1]
      C7_lookup_of_unknown_name [of ?m "''OnLanded''", THEN conjunct2, THEN conjunct1]
      C7_lookup_of_unknown_name [of ?m "''OnLanded''", THEN conjunct2, THEN conjunct2,
        THEN conjunct2, rule_format, OF h2]
    by simp
qed

subsection \<open>C8\<close>




subsection \<open>C9\<close>

text \<open>
  Claim C9. On an event at rest, a broadcast of at most as many values as there are slots
  returns: no access \<open>m_eventArgs[m_argsCounter]\<close> is outside the array. A broadcast of
  more values, of which those that have a slot match it, reaches the access at the index
  equal to the number of slots, which is outside the array.
\<close>

theorem C9_slot_index_in_bounds:
  assumes "m_argsCounter ev = 0"
  shows "(length vs \<le> length (m_eventArgs ev) \<longrightarrow> (\<exists>r. Broadcast_call ev vs = Inr r))
       \<and> (length (m_eventArgs ev) < length vs
            \<and> list_all2 kind_match (m_eventArgs ev) (take (length (m_eventArgs ev)) vs) \<longrightarrow>
          Broadcast_call ev vs =
            Inl (ArrayIndexOutOfBounds (int (length (m_eventArgs ev))) (length (m_eventArgs ev))))"
  using Broadcast_in_bounds [OF assms] Broadcast_oob [OF assms] by blast

text \<open>The theorem of C9 at a concrete input.\<close>

theorem C9_witness:
  "m_argsCounter OnLanded = 0
 \<and> length [V_double 1] \<le> length (m_eventArgs OnLanded)
 \<and> Broadcast_call OnLanded [V_double 1] =
     Inr (OnLanded, [Log (BroadcastMismatch ''OnLanded'' ''height''),
                     Log (BroadcastFailed ''OnLanded'' (-1) 1)])
 \<and> length (m_eventArgs OnLanded) < length [V_float 1, V_float 2]
 \<and> list_all2 kind_match (m_eventArgs OnLanded)
      (take (length (m_eventArgs OnLanded)) [V_float 1, V_float 2])
 \<and> Broadcast_call OnLanded [V_float 1, V_float 2] = Inl (ArrayIndexOutOfBounds 1 1)"
proof -
  have h1: "m_argsCounter OnLanded = 0"
    by (simp add: OnLanded_def)
  have h2: "length [V_double 1] \<le> length (m_eventArgs OnLanded)"
    by (simp add: OnLanded_def)
  have h3: "length (m_eventArgs OnLanded) < length [V_float 1, V_float 2]
      \<and> list_all2 kind_match (m_eventArgs OnLanded)
           (take (length (m_eventArgs OnLanded)) [V_float 1, V_float 2])"
    by (simp add: OnLanded_def kind_match_def GetIndex_def)
  have b: "Broadcast_call OnLanded [V_double 1] =
     Inr (OnLanded, [Log (BroadcastMismatch ''OnLanded'' ''height''),
                     Log (BroadcastFailed ''OnLanded'' (-1) 1)])"
    by (simp add: OnLanded_def Broadcast_call_def Broadcast_def SetValues_arg_def GetIndex_def)
  show ?thesis
    using h1 h2 h3 b
      C9_slot_index_in_bounds [OF h1, of "[V_double 1]", THEN conjunct1, rule_format, OF h2]
      C9_slot_index_in_bounds [OF h1, of "[V_float 1, V_float 2]", THEN conjunct2, rule_format, OF h3]
    by (simp add: OnLanded_def)
qed

subsection \<open>C10\<close>

text \<open>
  Claim C10. After any sequence of \<open>Broadcast\<close> and \<open>GetValue\<close> calls that return, made
  on an event the row loop of \<open>Setup\<close> has built from a row, the name and the variant
  index of each slot are those of the declared argument; in general such a sequence
  leaves the schema of the event as it was. The one-argument \<open>SetValues\<close> changes no slot
  unless the index of the value equals the index of the slot at the counter, and then it
  stores the value in that slot only.
\<close>

theorem C10_slot_kinds_preserved:
  "(FindRow dt name = Some row \<and> m_events (Setup_rows mgr dt (GetRowNames dt)) name = Some ev
      \<and> run_calls ev calls = Inr ev' \<longrightarrow>
      schema ev' = map (\<lambda>arg. (fst arg, GetIndex (argType (snd arg)))) (m_args row))
 \<and> (run_calls ev calls = Inr ev' \<longrightarrow> schema ev' = schema ev)
 \<and> (SetValues_arg ev v = Inr (ev1, fx) \<longrightarrow>
      m_eventArgs ev1 = m_eventArgs ev
      \<or> (0 \<le> m_argsCounter ev \<and> nat (m_argsCounter ev) < length (m_eventArgs ev)
         \<and> GetIndex (m_type (m_eventArgs ev ! nat (m_argsCounter ev))) = GetIndex v
         \<and> m_eventArgs ev1 = (m_eventArgs ev)
              [nat (m_argsCounter ev) := (m_eventArgs ev ! nat (m_argsCounter ev))\<lparr>m_type := v\<rparr>]))"
proof (intro conjI impI)
  assume a: "FindRow dt name = Some row
      \<and> m_events (Setup_rows mgr dt (GetRowNames dt)) name = Some ev
      \<and> run_calls ev calls = Inr ev'"
  then have f: "FindRow dt name = Some row"
    and e: "m_events (Setup_rows mgr dt (GetRowNames dt)) name = Some ev"
    by simp_all
  from f have "name \<in> set (GetRowNames dt)" by (rule FindRow_in_names)
  with e f have "ev = Setup_args ((NewObject (m_isDynamic row))\<lparr>UGameEvent.m_name := name\<rparr>) (m_args row)"
    by (simp add: Setup_rows_lookup)
  then have "schema ev = map (\<lambda>arg. (fst arg, GetIndex (argType (snd arg)))) (m_args row)"
    by (simp add: Setup_args_eq NewObject_def schema_def comp_def)
  moreover from a have "schema ev' = schema ev" by (blast intro: run_calls_schema)
  ultimately show "schema ev' = map (\<lambda>arg. (fst arg, GetIndex (argType (snd arg)))) (m_args row)"
    by simp
next
  assume "run_calls ev calls = Inr ev'"
  then show "schema ev' = schema ev" by (rule run_calls_schema)
next
  assume "SetValues_arg ev v = Inr (ev1, fx)"
  from SetValues_arg_writes [OF this]
  show "m_eventArgs ev1 = m_eventArgs ev
      \<or> (0 \<le> m_argsCounter ev \<and> nat (m_argsCounter ev) < length (m_eventArgs ev)
         \<and> GetIndex (m_type (m_eventArgs ev ! nat (m_argsCounter ev))) = GetIndex v
         \<and> m_eventArgs ev1 = (m_eventArgs ev)
              [nat (m_argsCounter ev) := (m_eventArgs ev ! nat (m_argsCounter ev))\<lparr>m_type := v\<rparr>])"
    by (simp add: kind_match_def)
qed

text \<open>The theorem of C10 at a concrete input.\<close>

theorem C10_witness:
  "FindRow definitions ''OnLanded'' = Some \<lparr>m_isDynamic = False, m_args = [(''height'', E_Float)]\<rparr>
 \<and> m_events (Setup_rows (empty_manager definitions) definitions (GetRowNames definitions)) ''OnLanded''
     = Some (OnLanded\<lparr>m_delegate := []\<rparr>)
 \<and> run_calls (OnLanded\<lparr>m_delegate := []\<rparr>)
      [Call_Broadcast [V_float 0x437B0000], Call_GetValue ''height'' T_int,
       Call_Broadcast [V_int 3], Call_Broadcast []]
     = Inr (OnLanded\<lparr>m_delegate := [],
              m_eventArgs := [\<lparr>CEventArg.m_name = ''height'', m_type = V_float 0x437B0000\<rparr>]\<rparr>)
 \<and> schema (OnLanded\<lparr>m_delegate := [],
              m_eventArgs := [\<lparr>CEventArg.m_name = ''height'', m_type = V_float 0x437B0000\<rparr>]\<rparr>)
     = [(''height'', 1)]"
proof -
  let ?calls = "[Call_Broadcast [V_float 0x437B0000], Call_GetValue ''height'' T_int,
       Call_Broadcast [V_int 3], Call_Broadcast []]"
  let ?ev' = "OnLanded\<lparr>m_delegate := [],
              m_eventArgs := [\<lparr>CEventArg.m_name = ''height'', m_type = V_float 0x437B0000\<rparr>]\<rparr>"
  have h1: "FindRow definitions ''OnLanded'' = Some \<lparr>m_isDynamic = False, m_args = [(''height'', E_Float)]\<rparr>"
    by (simp add: FindRow_def definitions_def)
  have h2: "m_events (Setup_rows (empty_manager definitions) definitions (GetRowNames definitions)) ''OnLanded''
     = Some (OnLanded\<lparr>m_delegate := []\<rparr>)"
    by (simp add: definitions_def GetRowNames_def FindRow_def NewObject_def empty_manager_def
          OnLanded_def)
  have h3: "run_calls (OnLanded\<lparr>m_delegate := []\<rparr>) ?calls = Inr ?ev'"
    by (simp add: OnLanded_def Broadcast_call_def Broadcast_def Broadcast0_def SetValues_arg_def
          GetIndex_def CheckArgsCounter_def BroadcastDelegate_def Delegate_Broadcast_def
          GetValue_def Let_def)
  have h: "FindRow definitions ''OnLanded'' = Some \<lparr>m_isDynamic = False, m_args = [(''height'', E_Float)]\<rparr>
      \<and> m_events (Setup_rows (empty_manager definitions) definitions (GetRowNames definitions)) ''OnLanded''
          = Some (OnLanded\<lparr>m_delegate := []\<rparr>)
      \<and> run_calls (OnLanded\<lparr>m_delegate := []\<rparr>) ?calls = Inr ?ev'"
    using h1 h2 h3 by simp
  show ?thesis
    using h1 h2 h3 C10_slot_kinds_preserved [THEN conjunct1, rule_format, OF h]
    by (simp add: GetIndex_def)
qed

end
